theory Spec2Isabelle
  imports Complex_Main "HOL-Library.Sublist" "HOL-Library.AList"
begin

section \<open>JavaScript strings and values\<close>

text \<open>
  A JavaScript string is modelled as a \<^typ>\<open>string\<close>: the list of the bytes of its
  UTF-8 encoding. \<open>toLowerCase\<close> and \<open>toUpperCase\<close> are modelled on the ASCII letters
  (bytes outside ASCII are left as they are); \<open>encodeURIComponent\<close> and the base64
  encoding of \<open>Buffer.from(s)\<close> work on the UTF-8 bytes, as the model does.
\<close>

definition lower_char :: "char \<Rightarrow> char" where
  "lower_char c =
     (case map_of (zip ''ABCDEFGHIJKLMNOPQRSTUVWXYZ'' ''abcdefghijklmnopqrstuvwxyz'') c of
        Some d \<Rightarrow> d
      | None \<Rightarrow> c)"

definition upper_char :: "char \<Rightarrow> char" where
  "upper_char c =
     (case map_of (zip ''abcdefghijklmnopqrstuvwxyz'' ''ABCDEFGHIJKLMNOPQRSTUVWXYZ'') c of
        Some d \<Rightarrow> d
      | None \<Rightarrow> c)"

definition toLowerCase :: "string \<Rightarrow> string" where
  "toLowerCase s = map lower_char s"

definition toUpperCase :: "string \<Rightarrow> string" where
  "toUpperCase s = map upper_char s"

text \<open>\<open>text.includes(pat)\<close>, \<open>text.startsWith(pat)\<close> and \<open>text.endsWith(pat)\<close>.\<close>

definition startsWith :: "string \<Rightarrow> string \<Rightarrow> bool" where
  "startsWith text pat = prefix pat text"

definition endsWith :: "string \<Rightarrow> string \<Rightarrow> bool" where
  "endsWith text pat = suffix pat text"

fun str_includes :: "string \<Rightarrow> string \<Rightarrow> bool" where
  "str_includes [] pat = (pat = [])"
| "str_includes (c # cs) pat = (prefix pat (c # cs) \<or> str_includes cs pat)"

text \<open>\<open>s.split(sep)\<close> for a separator of one character: \<open>"".split(" ")\<close> is \<open>[""]\<close>.\<close>

fun split :: "char \<Rightarrow> string \<Rightarrow> string list" where
  "split sep [] = [[]]"
| "split sep (c # cs) =
     (if c = sep then [] # split sep cs
      else (c # hd (split sep cs)) # tl (split sep cs))"

text \<open>\<open>xs.join(sep)\<close>.\<close>

fun join :: "string \<Rightarrow> string list \<Rightarrow> string" where
  "join sep [] = []"
| "join sep [x] = x"
| "join sep (x # y # ys) = x @ sep @ join sep (y # ys)"

text \<open>
  \<open>s.replace(pat, rep)\<close> with a string pattern: the leftmost occurrence of \<open>pat\<close> is
  replaced, and \<open>s\<close> is returned as it is when there is none. The replacement strings
  of the program are results of \<open>encodeURIComponent\<close>, which never hold a \<open>$\<close>, so the
  \<open>$\<close>-patterns of JavaScript's replacement syntax do not arise.
\<close>

fun replace :: "string \<Rightarrow> string \<Rightarrow> string \<Rightarrow> string" where
  "replace [] pat rep = (if pat = [] then rep else [])"
| "replace (c # cs) pat rep =
     (if prefix pat (c # cs) then rep @ drop (length pat) (c # cs)
      else c # replace cs pat rep)"

text \<open>
  \<open>encodeURIComponent\<close>: the unreserved characters \<open>A-Z a-z 0-9 - _ . ! ~ * ' ( )\<close>
  stand for themselves, every other byte is \<open>%XX\<close> in upper-case hexadecimal.
\<close>

definition unreserved :: "char \<Rightarrow> bool" where
  "unreserved c \<longleftrightarrow>
     c \<in> set ''ABCDEFGHIJKLMNOPQRSTUVWXYZabcdefghijklmnopqrstuvwxyz0123456789-_.!~*()''
     \<or> c = CHR 0x27"

definition hex_digit :: "nat \<Rightarrow> char" where
  "hex_digit n = ''0123456789ABCDEF'' ! n"

definition percent_encode :: "char \<Rightarrow> string" where
  "percent_encode c =
     (let n = (of_char c :: nat) in [CHR ''%'', hex_digit (n div 16), hex_digit (n mod 16)])"

definition encodeURIComponent :: "string \<Rightarrow> string" where
  "encodeURIComponent s = concat (map (\<lambda>c. if unreserved c then [c] else percent_encode c) s)"

text \<open>\<open>Buffer.from(s).toString("base64")\<close>: RFC 4648 base64 with padding.\<close>

definition b64_digit :: "nat \<Rightarrow> char" where
  "b64_digit n = ''ABCDEFGHIJKLMNOPQRSTUVWXYZabcdefghijklmnopqrstuvwxyz0123456789+/'' ! n"

fun base64_bytes :: "nat list \<Rightarrow> string" where
  "base64_bytes [] = []"
| "base64_bytes [a] =
     [b64_digit (a div 4), b64_digit ((a mod 4) * 16), CHR ''='', CHR ''='']"
| "base64_bytes [a, b] =
     [b64_digit (a div 4), b64_digit ((a mod 4) * 16 + b div 16),
      b64_digit ((b mod 16) * 4), CHR ''='']"
| "base64_bytes (a # b # c # rest) =
     [b64_digit (a div 4), b64_digit ((a mod 4) * 16 + b div 16),
      b64_digit ((b mod 16) * 4 + c div 64), b64_digit (c mod 64)] @ base64_bytes rest"

definition base64 :: "string \<Rightarrow> string" where
  "base64 s = base64_bytes (map of_char s)"

text \<open>
  The values a caller can put into the \<open>parameters\<close> record: strings, integers,
  booleans, \<open>null\<close> and \<open>undefined\<close>. Arrays, objects and numbers that are not
  integers are outside the model. \<open>String(v)\<close> is \<open>js_String\<close>; an integer prints in
  plain decimal (as JavaScript does below \<open>10^21\<close>).
\<close>

datatype jsval = JStr string | JNum int | JBool bool | JNull | JUndefined

fun digits :: "nat \<Rightarrow> string" where
  "digits n =
     (if n < 10 then [''0123456789'' ! n]
      else digits (n div 10) @ [''0123456789'' ! (n mod 10)])"

fun js_String :: "jsval \<Rightarrow> string" where
  "js_String (JStr s) = s"
| "js_String (JNum i) = (if i < 0 then CHR ''-'' # digits (nat (- i)) else digits (nat i))"
| "js_String (JBool b) = (if b then ''true'' else ''false'')"
| "js_String JNull = ''null''"
| "js_String JUndefined = ''undefined''"

text \<open>
  An optional string field is \<open>None\<close> when the property is absent. JavaScript's
  truthiness makes an empty string count as absent in \<open>x && ...\<close> and \<open>x || d\<close>.
\<close>

definition truthy :: "string option \<Rightarrow> bool" where
  "truthy x = (case x of None \<Rightarrow> False | Some s \<Rightarrow> s \<noteq> [])"

definition or_else :: "string option \<Rightarrow> string \<Rightarrow> string" where
  "or_else x d = (if truthy x then the x else d)"

section \<open>Authentication resolvers\<close>

text \<open>
  \<open>AuthConfig\<close> of \<open>types.ts\<close>. The tool schemas add the type \<open>none\<close> to the four
  of the interface, so a per-call value can carry it.
\<close>

datatype auth_type = AuthNone | AuthBasic | AuthBearer | AuthApiKey | AuthOAuth2

datatype api_key_in = InHeader | InQuery

record AuthConfig =
  auth_type :: auth_type
  username :: "string option"
  password :: "string option"
  token :: "string option"
  apiKey :: "string option"
  apiKeyName :: "string option"
  apiKeyIn :: "api_key_in option"

text \<open>
  \<open>getAuthHeaders\<close> and \<open>getAuthQueryParams\<close> of \<open>SimpleSwaggerMcpServer\<close> (those of
  \<open>SimplePostmanMcpServer\<close> compute the same). The first argument is the field
  \<open>this.defaultAuth\<close>, the second the per-call \<open>auth\<close>. A \<open>Record<string, string>\<close> is
  an association list in insertion order.
\<close>

definition getAuthHeaders ::
  "AuthConfig option \<Rightarrow> AuthConfig option \<Rightarrow> (string \<times> string) list" where
  "getAuthHeaders defaultAuth auth =
     (case (case auth of Some a \<Rightarrow> Some a | None \<Rightarrow> defaultAuth) of
        None \<Rightarrow> []
      | Some authConfig \<Rightarrow>
          (case auth_type authConfig of
             AuthBasic \<Rightarrow>
               if truthy (username authConfig) \<and> truthy (password authConfig)
               then [(''Authorization'',
                      ''Basic '' @ base64 (the (username authConfig) @ '':'' @
                                           the (password authConfig)))]
               else []
           | AuthBearer \<Rightarrow>
               if truthy (token authConfig)
               then [(''Authorization'', ''Bearer '' @ the (token authConfig))]
               else []
           | AuthApiKey \<Rightarrow>
               if truthy (apiKey authConfig) \<and> truthy (apiKeyName authConfig)
               then (if apiKeyIn authConfig = Some InHeader
                     then [(the (apiKeyName authConfig), the (apiKey authConfig))]
                     else [])
               else []
           | AuthOAuth2 \<Rightarrow>
               if truthy (token authConfig)
               then [(''Authorization'', ''Bearer '' @ the (token authConfig))]
               else []
           | AuthNone \<Rightarrow> []))"

definition getAuthQueryParams ::
  "AuthConfig option \<Rightarrow> AuthConfig option \<Rightarrow> (string \<times> string) list" where
  "getAuthQueryParams defaultAuth auth =
     (case (case auth of Some a \<Rightarrow> Some a | None \<Rightarrow> defaultAuth) of
        None \<Rightarrow> []
      | Some authConfig \<Rightarrow>
          if auth_type authConfig = AuthApiKey \<and> truthy (apiKey authConfig) \<and>
             truthy (apiKeyName authConfig) \<and> apiKeyIn authConfig = Some InQuery
          then [(the (apiKeyName authConfig), the (apiKey authConfig))]
          else [])"

text \<open>Both outputs of one resolution, as the dispatch computes them side by side.\<close>

abbreviation auth_outputs ::
  "AuthConfig option \<Rightarrow> AuthConfig option \<Rightarrow> (string \<times> string) list \<times> (string \<times> string) list" where
  "auth_outputs defaultAuth auth \<equiv>
     (getAuthHeaders defaultAuth auth, getAuthQueryParams defaultAuth auth)"

section \<open>The OpenAPI server (\<open>swagger-mcp-simple.ts\<close>)\<close>

text \<open>
  An operation object of the parsed document, with the properties the tools read.
  \<open>security\<close> is the operation's list of security requirements (each requirement
  given by its scheme names).
\<close>

record operation =
  operationId :: "string option"
  summary :: "string option"
  description :: "string option"
  tags :: "string list option"
  deprecated :: "bool option"
  security :: "string list list option"

text \<open>
  \<open>paths\<close> is an object from path templates to path items, a path item an object from
  keys to values; both are association lists in the order of \<open>Object.entries\<close>, with
  distinct keys. A value is \<open>None\<close> when it is falsy (\<open>null\<close>, an empty string); any
  other value under a key of a path item is read by the tools as an operation object,
  with every property it does not have absent.
\<close>

type_synonym path_item = "(string \<times> operation option) list"

type_synonym paths = "(string \<times> path_item option) list"

record swagger_server =
  paths :: paths
  apiBaseUrl :: string
  defaultAuth :: "AuthConfig option"

text \<open>\<open>op.operationId || `${method}-${path}`\<close>, computed alike by all four tools.\<close>

definition endpoint_id :: "string \<Rightarrow> string \<Rightarrow> operation \<Rightarrow> string" where
  "endpoint_id method path op = or_else (operationId op) (method @ ''-'' @ path)"

subsection \<open>\<open>list_endpoints\<close>\<close>

record search_result =
  r_operationId :: string
  r_method :: string
  r_path :: string
  r_summary :: string
  r_description :: string
  r_tags :: "string list"

record endpoint_entry = search_result +
  r_deprecated :: bool

record list_input =
  li_method :: "string option"
  li_tag :: "string option"
  li_limit :: int

definition list_entry :: "string \<Rightarrow> string \<Rightarrow> operation \<Rightarrow> endpoint_entry" where
  "list_entry path method op =
     \<lparr>r_operationId = endpoint_id method path op,
      r_method = toUpperCase method,
      r_path = path,
      r_summary = or_else (summary op) [],
      r_description = or_else (description op) [],
      r_tags = (case tags op of None \<Rightarrow> [] | Some ts \<Rightarrow> ts),
      r_deprecated = (case deprecated op of None \<Rightarrow> False | Some b \<Rightarrow> b)\<rparr>"

text \<open>The two filters of \<open>list_endpoints\<close>: an operation they reject is skipped.\<close>

definition list_filtered_out :: "list_input \<Rightarrow> string \<Rightarrow> operation \<Rightarrow> bool" where
  "list_filtered_out inp method op \<longleftrightarrow>
     (truthy (li_method inp) \<and> toLowerCase method \<noteq> toLowerCase (the (li_method inp))) \<or>
     (truthy (li_tag inp) \<and>
      (case tags op of None \<Rightarrow> True | Some ts \<Rightarrow> the (li_tag inp) \<notin> set ts))"

text \<open>
  The inner loop over the entries of one path item and the outer loop over the paths.
  \<open>endpoints\<close> is the array built so far; both loops leave with \<open>break\<close> when it has
  reached the limit.
\<close>

fun list_inner ::
  "list_input \<Rightarrow> string \<Rightarrow> path_item \<Rightarrow> endpoint_entry list \<Rightarrow> endpoint_entry list" where
  "list_inner inp path [] endpoints = endpoints"
| "list_inner inp path ((method, operation) # rest) endpoints =
     (case operation of
        None \<Rightarrow> list_inner inp path rest endpoints
      | Some op \<Rightarrow>
          if method = ''$ref'' then list_inner inp path rest endpoints
          else if list_filtered_out inp method op then list_inner inp path rest endpoints
          else (let endpoints' = endpoints @ [list_entry path method op]
                in if li_limit inp \<le> int (length endpoints') then endpoints'
                   else list_inner inp path rest endpoints'))"

fun list_outer :: "list_input \<Rightarrow> paths \<Rightarrow> endpoint_entry list \<Rightarrow> endpoint_entry list" where
  "list_outer inp [] endpoints = endpoints"
| "list_outer inp ((path, pathItem) # rest) endpoints =
     (case pathItem of
        None \<Rightarrow> list_outer inp rest endpoints
      | Some item \<Rightarrow>
          (let endpoints' = list_inner inp path item endpoints
           in if li_limit inp \<le> int (length endpoints') then endpoints'
              else list_outer inp rest endpoints'))"

definition list_endpoints :: "swagger_server \<Rightarrow> list_input \<Rightarrow> endpoint_entry list" where
  "list_endpoints srv inp = list_outer inp (paths srv) []"

subsection \<open>Finding an operation (\<open>get_endpoint_details\<close>, \<open>make_api_call\<close>)\<close>

record lookup_input =
  lk_operationId :: "string option"
  lk_path :: "string option"
  lk_method :: "string option"

definition lookup_matches :: "lookup_input \<Rightarrow> string \<Rightarrow> string \<Rightarrow> operation \<Rightarrow> bool" where
  "lookup_matches inp path method op \<longleftrightarrow>
     lk_operationId inp = Some (endpoint_id method path op) \<or>
     (lk_path inp = Some path \<and>
      (case lk_method inp of
         None \<Rightarrow> False
       | Some m \<Rightarrow> toLowerCase m = toLowerCase method))"

text \<open>The result is \<open>(targetOperation, targetPath, targetMethod)\<close>, \<open>None\<close> for \<open>null\<close>.\<close>

fun find_inner ::
  "lookup_input \<Rightarrow> string \<Rightarrow> path_item \<Rightarrow> (operation \<times> string \<times> string) option" where
  "find_inner inp path [] = None"
| "find_inner inp path ((method, operation) # rest) =
     (case operation of
        None \<Rightarrow> find_inner inp path rest
      | Some op \<Rightarrow>
          if method = ''$ref'' then find_inner inp path rest
          else if lookup_matches inp path method op then Some (op, path, method)
          else find_inner inp path rest)"

fun find_operation ::
  "lookup_input \<Rightarrow> paths \<Rightarrow> (operation \<times> string \<times> string) option" where
  "find_operation inp [] = None"
| "find_operation inp ((path, pathItem) # rest) =
     (case pathItem of
        None \<Rightarrow> find_operation inp rest
      | Some item \<Rightarrow>
          (case find_inner inp path item of
             Some target \<Rightarrow> Some target
           | None \<Rightarrow> find_operation inp rest))"

text \<open>
  What a tool returns: a text, or the text of \<open>JSON.stringify\<close> of a value (kept as
  the value). Of the details of an endpoint the model keeps the fields the list has;
  the parameter, request body and response schemas are copied from the document and
  play no part below.
\<close>

datatype 'a reply = Text string | Json 'a

definition get_endpoint_details ::
  "swagger_server \<Rightarrow> lookup_input \<Rightarrow> endpoint_entry reply \<times> swagger_server" where
  "get_endpoint_details srv inp =
     (case find_operation inp (paths srv) of
        None \<Rightarrow>
          (Text ''Endpoint not found. Use list_endpoints to see available endpoints.'', srv)
      | Some (targetOperation, targetPath, targetMethod) \<Rightarrow>
          (Json (list_entry targetPath targetMethod targetOperation), srv))"

subsection \<open>\<open>search_endpoints\<close>\<close>

definition search_entry :: "string \<Rightarrow> string \<Rightarrow> operation \<Rightarrow> search_result" where
  "search_entry path method op =
     \<lparr>r_operationId = endpoint_id method path op,
      r_method = toUpperCase method,
      r_path = path,
      r_summary = or_else (summary op) [],
      r_description = or_else (description op) [],
      r_tags = (case tags op of None \<Rightarrow> [] | Some ts \<Rightarrow> ts)\<rparr>"

definition endpoint_searchText :: "string \<Rightarrow> string \<Rightarrow> operation \<Rightarrow> string" where
  "endpoint_searchText path method op =
     toLowerCase (join '' ''
       ([path, or_else (summary op) [], or_else (description op) []] @
        (case tags op of None \<Rightarrow> [] | Some ts \<Rightarrow> ts) @
        [endpoint_id method path op]))"

text \<open>\<open>query\<close> is \<open>input.query.toLowerCase()\<close>. The limit is tested after every
  operation that is not skipped, whether it matched or not.\<close>

fun search_inner ::
  "string \<Rightarrow> int \<Rightarrow> string \<Rightarrow> path_item \<Rightarrow> search_result list \<Rightarrow> search_result list" where
  "search_inner query limit path [] results = results"
| "search_inner query limit path ((method, operation) # rest) results =
     (case operation of
        None \<Rightarrow> search_inner query limit path rest results
      | Some op \<Rightarrow>
          if method = ''$ref'' then search_inner query limit path rest results
          else (let results' =
                      (if str_includes (endpoint_searchText path method op) query
                       then results @ [search_entry path method op] else results)
                in if limit \<le> int (length results') then results'
                   else search_inner query limit path rest results'))"

fun search_outer ::
  "string \<Rightarrow> int \<Rightarrow> paths \<Rightarrow> search_result list \<Rightarrow> search_result list" where
  "search_outer query limit [] results = results"
| "search_outer query limit ((path, pathItem) # rest) results =
     (case pathItem of
        None \<Rightarrow> search_outer query limit rest results
      | Some item \<Rightarrow>
          (let results' = search_inner query limit path item results
           in if limit \<le> int (length results') then results'
              else search_outer query limit rest results'))"

definition search_endpoints :: "swagger_server \<Rightarrow> string \<Rightarrow> int \<Rightarrow> search_result list" where
  "search_endpoints srv query limit = search_outer (toLowerCase query) limit (paths srv) []"

text \<open>
  The operations the loops visit, in their order: every entry of every path item but
  the falsy ones and the key \<open>$ref\<close>.
\<close>

definition item_operations :: "string \<Rightarrow> path_item \<Rightarrow> (string \<times> string \<times> operation) list" where
  "item_operations path item =
     concat (map (\<lambda>(method, operation).
        case operation of
          None \<Rightarrow> []
        | Some op \<Rightarrow> if method = ''$ref'' then [] else [(path, method, op)]) item)"

definition operations :: "paths \<Rightarrow> (string \<times> string \<times> operation) list" where
  "operations ps =
     concat (map (\<lambda>(path, pathItem).
        case pathItem of None \<Rightarrow> [] | Some item \<Rightarrow> item_operations path item) ps)"

subsection \<open>\<open>make_api_call\<close>\<close>

text \<open>
  A request body: \<open>undefined\<close>, a string, or another value, of which the model keeps
  whether it is truthy and the text \<open>JSON.stringify\<close> gives for it.
\<close>

datatype body = BodyUndefined | BodyString string | BodyOther bool string

fun body_truthy :: "body \<Rightarrow> bool" where
  "body_truthy BodyUndefined = False"
| "body_truthy (BodyString s) = (s \<noteq> [])"
| "body_truthy (BodyOther t j) = t"

text \<open>
  The HTTP transport (axios) is a parameter of the model: a function from the request
  configuration to the outcome of the call, which is a response, an error that carries
  a response, or an error without one (with its message).
\<close>

record 'd http_request =
  rq_method :: string
  rq_url :: string
  rq_headers :: "(string \<times> jsval) list"
  rq_params :: "(string \<times> jsval) list"
  rq_data :: 'd

record http_response =
  status :: nat
  statusText :: string
  headers :: "(string \<times> string) list"
  data :: string


record call_input =
  ci_target :: lookup_input
  ci_parameters :: "(string \<times> jsval) list option"
  ci_body :: body
  ci_auth :: "AuthConfig option"

text \<open>\<open>{...a, ...b}\<close> and \<open>acc[key] = value\<close> on objects kept as association lists.\<close>

definition spread :: "(string \<times> 'v) list \<Rightarrow> (string \<times> 'v) list \<Rightarrow> (string \<times> 'v) list" where
  "spread a b = fold (\<lambda>(key, value) acc. AList.update key value acc) b a"

definition str_values :: "(string \<times> string) list \<Rightarrow> (string \<times> jsval) list" where
  "str_values kvs = map (\<lambda>(key, value). (key, JStr value)) kvs"

text \<open>The set \<open>pathParams\<close>: the \<open>{name}\<close> segments of the path template.\<close>

definition pathParams :: "string \<Rightarrow> string list" where
  "pathParams targetPath =
     map (\<lambda>segment. butlast (tl segment))
       (filter (\<lambda>segment. startsWith segment ''{'' \<and> endsWith segment ''}'')
          (split CHR ''/'' targetPath))"

definition substitute_path :: "string list \<Rightarrow> (string \<times> jsval) list \<Rightarrow> string \<Rightarrow> string" where
  "substitute_path names params url =
     fold (\<lambda>(key, value) url.
        if key \<in> set names
        then replace url (''{'' @ key @ ''}'') (encodeURIComponent (js_String value))
        else url) params url"

definition queryParams :: "string list \<Rightarrow> (string \<times> jsval) list \<Rightarrow> (string \<times> jsval) list" where
  "queryParams names params =
     fold (\<lambda>(key, value) acc. AList.update key value acc)
       (filter (\<lambda>(key, value). key \<notin> set names) params) []"

text \<open>\<open>input.auth?.type !== "none" ? input.auth : undefined\<close>.\<close>

definition call_auth :: "AuthConfig option \<Rightarrow> AuthConfig option" where
  "call_auth auth =
     (case auth of
        None \<Rightarrow> None
      | Some a \<Rightarrow> if auth_type a \<noteq> AuthNone then Some a else None)"

text \<open>The configuration handed to axios for the operation found.\<close>

definition api_request ::
  "swagger_server \<Rightarrow> operation \<times> string \<times> string \<Rightarrow> call_input \<Rightarrow> body http_request" where
  "api_request srv target inp =
     (case target of (targetOperation, targetPath, targetMethod) \<Rightarrow>
        (let params = (case ci_parameters inp of None \<Rightarrow> [] | Some ps \<Rightarrow> ps);
             names = pathParams targetPath;
             url = substitute_path names params (apiBaseUrl srv @ targetPath);
             authHeaders = getAuthHeaders (defaultAuth srv) (call_auth (ci_auth inp));
             authQueryParams = getAuthQueryParams (defaultAuth srv) (call_auth (ci_auth inp))
         in \<lparr>rq_method = targetMethod,
             rq_url = url,
             rq_headers = str_values authHeaders,
             rq_params = spread (queryParams names params) (str_values authQueryParams),
             rq_data = ci_body inp\<rparr>))"


section \<open>The Postman server (\<open>postman-mcp-simple.ts\<close>)\<close>

text \<open>
  A request of the collection, with what the server reads of it: the method, the text
  \<open>request.url?.toString() || ""\<close> of the URL and the text of the description. An item
  of the tree is a leaf (\<open>Item\<close>, with its name and its request) or a folder
  (\<open>ItemGroup\<close>, with its name and its items).
\<close>

record postman_request =
  pm_method :: "string option"
  pm_url :: string
  pm_description :: "string option"

datatype item = Item "string option" "postman_request option" | ItemGroup "string option" "item list"

record request_summary =
  q_id :: string
  q_name :: string
  q_method :: string
  q_url :: string
  q_folder :: string
  q_description :: string

record request_entry = request_summary +
  q_request :: postman_request

record search_hit = request_summary +
  relevance :: rat

record postman_server =
  requests :: "request_entry list"
  environment :: "string \<Rightarrow> string option"
  pm_defaultAuth :: "AuthConfig option"

text \<open>The class \<open>\w\<close>, that is \<open>[a-zA-Z0-9_]\<close>, and an absent name in a template literal.\<close>

definition word_char :: "char \<Rightarrow> bool" where
  "word_char c \<longleftrightarrow>
     c \<in> set ''ABCDEFGHIJKLMNOPQRSTUVWXYZabcdefghijklmnopqrstuvwxyz0123456789_''"

definition template :: "string option \<Rightarrow> string" where
  "template x = (case x of None \<Rightarrow> ''undefined'' | Some s \<Rightarrow> s)"

subsection \<open>\<open>parseAllRequests\<close>\<close>

definition request_id :: "string \<Rightarrow> string option \<Rightarrow> string" where
  "request_id folderPath name =
     toLowerCase (map (\<lambda>c. if word_char c then c else CHR ''_'') (folderPath @ template name))"

fun parseItem :: "item \<Rightarrow> string \<Rightarrow> request_entry list" where
  "parseItem (Item name request) folderPath =
     (case request of
        None \<Rightarrow> []
      | Some rq \<Rightarrow>
          [\<lparr>q_id = request_id folderPath name,
            q_name = or_else name ''Unnamed Request'',
            q_method = or_else (pm_method rq) ''GET'',
            q_url = pm_url rq,
            q_folder = folderPath,
            q_description = or_else (pm_description rq) [],
            q_request = rq\<rparr>])"
| "parseItem (ItemGroup name items) folderPath =
     (let newFolderPath =
            (if folderPath \<noteq> [] then folderPath @ ''/'' @ template name
             else (case name of None \<Rightarrow> [] | Some n \<Rightarrow> n))
      in concat (map (\<lambda>subItem. parseItem subItem newFolderPath) items))"

definition parseAllRequests :: "item list \<Rightarrow> request_entry list" where
  "parseAllRequests items = concat (map (\<lambda>item. parseItem item []) items)"

subsection \<open>\<open>resolveVariables\<close>\<close>

text \<open>
  One match of the pattern \<open>\{\{(\w+)\}\}\<close> at the start of a text: the braces, the
  longest run of word characters (not empty) and the closing braces. The result is the
  variable name and the text after the match.
\<close>

definition match_token :: "string \<Rightarrow> (string \<times> string) option" where
  "match_token s =
     (if prefix ''{{'' s
      then (let name = takeWhile word_char (drop 2 s);
                rest = dropWhile word_char (drop 2 s)
            in if name \<noteq> [] \<and> prefix ''}}'' rest then Some (name, drop 2 rest) else None)
      else None)"

lemma match_token_shorter: "match_token s = Some (name, rest) \<Longrightarrow> length rest < length s"
proof -
  assume m: "match_token s = Some (name, rest)"
  then have r: "rest = drop 2 (dropWhile word_char (drop 2 s))" and p: "prefix ''{{'' s"
    by (auto simp: match_token_def Let_def split: if_splits)
  have "length (dropWhile word_char (drop 2 s)) \<le> length (drop 2 s)"
    by (rule length_dropWhile_le)
  moreover from p have "2 \<le> length s"
    by (auto simp: prefix_def)
  ultimately show ?thesis
    unfolding r by simp
qed

text \<open>
  The global replacement scans the text from the left; a match is replaced by
  \<open>this.environment[variableName] || match\<close> and the scan goes on after it.
\<close>

function resolveVariables :: "(string \<Rightarrow> string option) \<Rightarrow> string \<Rightarrow> string" where
  "resolveVariables env [] = []"
| "resolveVariables env (c # cs) =
     (case match_token (c # cs) of
        Some (variableName, rest) \<Rightarrow>
          or_else (env variableName) (''{{'' @ variableName @ ''}}'') @ resolveVariables env rest
      | None \<Rightarrow> c # resolveVariables env cs)"
  by pat_completeness auto
termination
  by (relation "measure (\<lambda>(env, s). length s)") (auto dest: match_token_shorter)

subsection \<open>\<open>search_requests\<close> and \<open>calculateRelevance\<close>\<close>

definition calculateRelevance :: "string \<Rightarrow> string \<Rightarrow> rat" where
  "calculateRelevance query text =
     fold (\<lambda>word score.
        if str_includes text word
        then (if str_includes text ('' '' @ word @ '' '') \<or> startsWith text word \<or>
                 endsWith text word
              then score + 1 + 1 / 2 else score + 1)
        else score) (split CHR '' '' query) 0"

definition request_searchText :: "request_entry \<Rightarrow> string" where
  "request_searchText req =
     toLowerCase (join '' '' [q_name req, q_description req, q_url req, q_folder req,
                             q_method req])"

text \<open>\<open>description.substring(0, 100)\<close> and the dots after a longer description.\<close>

definition short_description :: "string \<Rightarrow> string" where
  "short_description d = take 100 d @ (if 100 < length d then ''...'' else [])"

definition request_listing :: "request_entry \<Rightarrow> request_summary" where
  "request_listing req =
     \<lparr>q_id = q_id req, q_name = q_name req, q_method = q_method req, q_url = q_url req,
      q_folder = q_folder req, q_description = short_description (q_description req)\<rparr>"

definition search_hit :: "string \<Rightarrow> request_entry \<Rightarrow> search_hit" where
  "search_hit query req =
     \<lparr>q_id = q_id req, q_name = q_name req, q_method = q_method req, q_url = q_url req,
      q_folder = q_folder req, q_description = short_description (q_description req),
      relevance = calculateRelevance query (request_searchText req)\<rparr>"

text \<open>The loop over \<open>this.requests\<close>: the limit is tested after each match.\<close>

fun search_loop :: "string \<Rightarrow> int \<Rightarrow> request_entry list \<Rightarrow> search_hit list \<Rightarrow> search_hit list" where
  "search_loop query limit [] results = results"
| "search_loop query limit (req # rest) results =
     (if str_includes (request_searchText req) query
      then (let results' = results @ [search_hit query req]
            in if limit \<le> int (length results') then results'
               else search_loop query limit rest results')
      else search_loop query limit rest results)"

text \<open>
  \<open>results.sort((a, b) => b.relevance - a.relevance)\<close>: \<open>Array.prototype.sort\<close> is a
  stable sort, here by falling relevance.
\<close>

definition sort_by_relevance :: "search_hit list \<Rightarrow> search_hit list" where
  "sort_by_relevance results = sort_key (\<lambda>r. - relevance r) results"

definition strip_relevance :: "search_hit \<Rightarrow> request_summary" where
  "strip_relevance r =
     \<lparr>q_id = q_id r, q_name = q_name r, q_method = q_method r, q_url = q_url r,
      q_folder = q_folder r, q_description = q_description r\<rparr>"

definition ranked_requests :: "postman_server \<Rightarrow> string \<Rightarrow> int \<Rightarrow> search_hit list" where
  "ranked_requests srv query limit =
     sort_by_relevance (search_loop (toLowerCase query) limit (requests srv) [])"

definition search_requests :: "postman_server \<Rightarrow> string \<Rightarrow> int \<Rightarrow> request_summary list" where
  "search_requests srv query limit = map strip_relevance (ranked_requests srv query limit)"

subsection \<open>\<open>get_request_details\<close> and \<open>make_request\<close>\<close>

record request_lookup =
  lk_requestId :: "string option"
  lk_name :: "string option"

definition request_matches :: "request_lookup \<Rightarrow> request_entry \<Rightarrow> bool" where
  "request_matches inp req \<longleftrightarrow>
     lk_requestId inp = Some (q_id req) \<or>
     (case lk_name inp of
        None \<Rightarrow> False
      | Some n \<Rightarrow> toLowerCase (q_name req) = toLowerCase n)"

fun find_request :: "request_lookup \<Rightarrow> request_entry list \<Rightarrow> request_entry option" where
  "find_request inp [] = None"
| "find_request inp (req # rest) =
     (if request_matches inp req then Some req else find_request inp rest)"


text \<open>Truthiness of a value, for \<open>!headers["Content-Type"]\<close>.\<close>

fun js_truthy :: "jsval \<Rightarrow> bool" where
  "js_truthy (JStr s) = (s \<noteq> [])"
| "js_truthy (JNum i) = (i \<noteq> 0)"
| "js_truthy (JBool b) = b"
| "js_truthy JNull = False"
| "js_truthy JUndefined = False"

text \<open>The three passes of \<open>executeRequest\<close> over \<open>Object.keys(parameters)\<close>.\<close>

definition substitute_parameters :: "(string \<times> jsval) list \<Rightarrow> string \<Rightarrow> string" where
  "substitute_parameters parameters url =
     fold (\<lambda>(key, value) url.
        if value \<noteq> JUndefined
        then (let v = encodeURIComponent (js_String value)
              in replace (replace (replace url ('':'' @ key) v) (''{{'' @ key @ ''}}'') v)
                   (''{'' @ key @ ''}'') v)
        else url) parameters url"

definition request_queryParams ::
  "(string \<times> jsval) list \<Rightarrow> string \<Rightarrow> (string \<times> jsval) list \<Rightarrow> (string \<times> jsval) list" where
  "request_queryParams parameters url authQueryParams =
     fold (\<lambda>(key, value) queryParams.
        if value \<noteq> JUndefined \<and> \<not> str_includes url ('':'' @ key) \<and>
           \<not> str_includes url (''{{'' @ key @ ''}}'')
        then AList.update key value queryParams
        else queryParams) parameters authQueryParams"

definition request_headers ::
  "(string \<times> jsval) list \<Rightarrow> body \<Rightarrow> (string \<times> jsval) list \<Rightarrow> (string \<times> jsval) list" where
  "request_headers parameters body authHeaders =
     (let headers =
            fold (\<lambda>(key, value) headers.
               if value \<noteq> JUndefined \<and> str_includes (toLowerCase key) ''header''
               then AList.update key value headers
               else headers) parameters authHeaders
      in if body_truthy body \<and>
            \<not> (case map_of headers ''Content-Type'' of None \<Rightarrow> False | Some v \<Rightarrow> js_truthy v)
         then AList.update ''Content-Type'' (JStr ''application/json'') headers
         else headers)"

definition request_url :: "postman_server \<Rightarrow> postman_request \<Rightarrow> (string \<times> jsval) list \<Rightarrow> string" where
  "request_url srv request parameters =
     substitute_parameters parameters (resolveVariables (environment srv) (pm_url request))"

definition request_config ::
  "postman_server \<Rightarrow> postman_request \<Rightarrow> (string \<times> jsval) list \<Rightarrow> body \<Rightarrow>
     AuthConfig option \<Rightarrow> string option http_request" where
  "request_config srv request parameters body auth =
     (let url = request_url srv request parameters
      in \<lparr>rq_method = or_else (pm_method request) ''GET'',
          rq_url = url,
          rq_headers =
            request_headers parameters body
              (str_values (getAuthHeaders (pm_defaultAuth srv) auth)),
          rq_params =
            request_queryParams parameters url
              (str_values (getAuthQueryParams (pm_defaultAuth srv) auth)),
          rq_data =
            (case body of
               BodyUndefined \<Rightarrow> None
             | BodyString s \<Rightarrow> if s \<noteq> [] then Some s else None
             | BodyOther t j \<Rightarrow> if t then Some j else None)\<rparr>)"





section \<open>The earlier OpenAPI server (\<open>mcp-server.ts\<close>)\<close>

text \<open>
  \<open>getAuthHeaders\<close> of the class \<open>SwaggerMcpServer\<close>, which takes the operation as well:
  \<open>requiredSchemes\<close> is \<open>operation?.security || this.swaggerSpec?.security || []\<close>
  (an empty array is truthy), and an empty list of requirements gives no header.
\<close>

definition SwaggerMcpServer_getAuthHeaders ::
  "AuthConfig option \<Rightarrow> string list list option \<Rightarrow> AuthConfig option \<Rightarrow> operation option \<Rightarrow>
     (string \<times> string) list" where
  "SwaggerMcpServer_getAuthHeaders defaultAuth' specSecurity auth operation =
     (case (case auth of Some a \<Rightarrow> Some a | None \<Rightarrow> defaultAuth') of
        None \<Rightarrow> []
      | Some authConfig \<Rightarrow>
          (let requiredSchemes =
                 (case (case operation of None \<Rightarrow> None | Some op \<Rightarrow> security op) of
                    Some s \<Rightarrow> s
                  | None \<Rightarrow> (case specSecurity of Some s \<Rightarrow> s | None \<Rightarrow> []))
           in if length requiredSchemes = 0 then []
              else (case auth_type authConfig of
                      AuthBasic \<Rightarrow>
                        if truthy (username authConfig) \<and> truthy (password authConfig)
                        then [(''Authorization'',
                               ''Basic '' @ base64 (the (username authConfig) @ '':'' @
                                                    the (password authConfig)))]
                        else []
                    | AuthBearer \<Rightarrow>
                        if truthy (token authConfig)
                        then [(''Authorization'', ''Bearer '' @ the (token authConfig))]
                        else []
                    | AuthApiKey \<Rightarrow>
                        if truthy (apiKey authConfig)
                        then [(''api_key'', the (apiKey authConfig))]
                        else []
                    | AuthOAuth2 \<Rightarrow>
                        if truthy (token authConfig)
                        then [(''Authorization'', ''Bearer '' @ the (token authConfig))]
                        else []
                    | AuthNone \<Rightarrow> [])))"

section \<open>Derived notions\<close>

text \<open>
  What the loops of the tools collect, as list functions over the operations and the
  requests in scan order: the entries \<open>list_endpoints\<close> lists, the matches of
  \<open>search_endpoints\<close> and the hits of \<open>search_requests\<close>.
\<close>

definition list_entries :: "list_input \<Rightarrow> (string \<times> string \<times> operation) list \<Rightarrow> endpoint_entry list" where
  "list_entries inp ops =
     map (\<lambda>(p, m, op). list_entry p m op) (filter (\<lambda>(p, m, op). \<not> list_filtered_out inp m op) ops)"

definition search_matches :: "string \<Rightarrow> (string \<times> string \<times> operation) list \<Rightarrow> search_result list" where
  "search_matches query ops =
     map (\<lambda>(p, m, op). search_entry p m op)
       (filter (\<lambda>(p, m, op). str_includes (endpoint_searchText p m op) query) ops)"

definition request_hits :: "string \<Rightarrow> request_entry list \<Rightarrow> search_hit list" where
  "request_hits query reqs =
     map (search_hit query) (filter (\<lambda>req. str_includes (request_searchText req) query) reqs)"

text \<open>What one step of the \<open>forEach\<close> of \<open>calculateRelevance\<close> adds to the score.\<close>

definition word_gain :: "string \<Rightarrow> string \<Rightarrow> rat" where
  "word_gain text word =
     (if str_includes text word
      then (if str_includes text ('' '' @ word @ '' '') \<or> startsWith text word \<or>
               endsWith text word
            then 3 / 2 else 1)
      else 0)"






section \<open>The behaviour as the specification words it\<close>

text \<open>
  The Postman search as the specification words it: every matching request of the
  full scan is collected, the matches are sorted by relevance, and only then is the
  list cut to the limit.
\<close>

definition documented_search_requests ::
  "postman_server \<Rightarrow> string \<Rightarrow> int \<Rightarrow> request_summary list" where
  "documented_search_requests srv query limit =
     map strip_relevance
       (take (nat limit)
          (sort_by_relevance (request_hits (toLowerCase query) (requests srv))))"

text \<open>
  The relevance score as the specification words it: one point for each distinct query
  word found anywhere in the text, and half a point more for a word that also occurs as
  a whole word, with a word boundary or the start of the text before it and a word
  boundary or the end of the text after it.
\<close>

fun bounded_occurrence :: "bool \<Rightarrow> string \<Rightarrow> string \<Rightarrow> bool" where
  "bounded_occurrence free [] word = (free \<and> word = [])"
| "bounded_occurrence free (c # cs) word =
     ((free \<and> prefix word (c # cs) \<and>
       (case drop (length word) (c # cs) of [] \<Rightarrow> True | d # ds \<Rightarrow> \<not> word_char d)) \<or>
      bounded_occurrence (\<not> word_char c) cs word)"

definition documented_relevance :: "string \<Rightarrow> string \<Rightarrow> rat" where
  "documented_relevance query text =
     (\<Sum>word\<leftarrow>remdups (split CHR '' '' query).
        if str_includes text word
        then 1 + (if bounded_occurrence True text word then 1 / 2 else 0)
        else 0)"

section \<open>Example data\<close>

text \<open>
  An OpenAPI document with \<open>GET /pets\<close> (no operation id, an empty security list),
  \<open>POST /pets\<close> and \<open>GET /users/{id}\<close>, served with a default bearer token; and a
  Postman collection of three requests with an environment that binds \<open>baseUrl\<close>.
\<close>

definition example_api :: swagger_server where
  "example_api =
     \<lparr>paths =
        [(''/pets'',
          Some [(''get'',
                 Some \<lparr>operationId = None, summary = Some ''List pets'', description = None,
                       tags = Some [''pets''], deprecated = None, security = Some []\<rparr>),
                (''post'',
                 Some \<lparr>operationId = Some ''createPet'', summary = Some ''Create a pet'',
                       description = None, tags = Some [''pets''], deprecated = None,
                       security = None\<rparr>)]),
         (''/users/{id}'',
          Some [(''get'',
                 Some \<lparr>operationId = None, summary = Some ''Get a user'', description = None,
                       tags = None, deprecated = None, security = None\<rparr>)])],
      apiBaseUrl = ''https://api.test'',
      defaultAuth =
        Some \<lparr>auth_type = AuthBearer, username = None, password = None, token = Some ''t'',
              apiKey = None, apiKeyName = None, apiKeyIn = None\<rparr>\<rparr>"

definition list_pets :: operation where
  "list_pets =
     \<lparr>operationId = None, summary = Some ''List pets'', description = None,
      tags = Some [''pets''], deprecated = None, security = Some []\<rparr>"

definition plain_request :: postman_request where
  "plain_request = \<lparr>pm_method = Some ''GET'', pm_url = ''{{baseUrl}}/v1'', pm_description = None\<rparr>"

definition example_collection :: postman_server where
  "example_collection =
     \<lparr>requests =
        parseAllRequests
          [Item (Some ''update profile'') (Some plain_request),
           Item (Some ''list users and roles'') (Some plain_request),
           Item (Some ''get user'') (Some plain_request)],
      environment = [''baseUrl'' \<mapsto> ''https://api.test''],
      pm_defaultAuth = None\<rparr>"

text \<open>A folder with two requests whose names differ only in case and punctuation.\<close>

definition twin_items :: "item list" where
  "twin_items =
     [ItemGroup (Some ''Users'')
        [Item (Some ''Get User'')
           (Some \<lparr>pm_method = Some ''GET'', pm_url = ''{{baseUrl}}/users/:id'',
                  pm_description = None\<rparr>),
         Item (Some ''get-user'')
           (Some \<lparr>pm_method = Some ''GET'', pm_url = ''{{baseUrl}}/v2/users/:id'',
                  pm_description = None\<rparr>)]]"

text \<open>Two requests with path variables, for the environment of the example collection.\<close>

definition user_request :: postman_request where
  "user_request =
     \<lparr>pm_method = Some ''GET'', pm_url = ''{{baseUrl}}/users/:id'', pm_description = None\<rparr>"

definition org_request :: postman_request where
  "org_request =
     \<lparr>pm_method = Some ''GET'', pm_url = ''{{baseUrl}}/orgs/:org/users/:orgUser'',
      pm_description = None\<rparr>"



section \<open>The loops as list functions\<close>

text \<open>
  The nested loops of the OpenAPI tools visit the operations of \<open>operations\<close> in order.
  The lemmas of this section replace each loop by \<open>find\<close>, \<open>filter\<close>, \<open>map\<close> and
  \<open>take\<close> over that list.
\<close>

lemma limit_le_length: "(limit \<le> int n) = (nat limit \<le> n)"
  by linarith

lemma find_inner_flat:
  "find_inner inp path item =
     map_option (\<lambda>(p, m, op). (op, p, m))
       (List.find (\<lambda>(p, m, op). lookup_matches inp p m op) (item_operations path item))"
  by (induction item) (auto simp: item_operations_def split: option.splits)

lemma item_operations_Cons:
  "item_operations path ((method, operation) # rest) =
     (case operation of None \<Rightarrow> [] | Some op \<Rightarrow> if method = ''$ref'' then [] else [(path, method, op)])
     @ item_operations path rest"
  by (simp add: item_operations_def)

lemma operations_Cons:
  "operations ((path, pathItem) # rest) =
     (case pathItem of None \<Rightarrow> [] | Some item \<Rightarrow> item_operations path item) @ operations rest"
  by (simp add: operations_def)

lemma operations_Nil: "operations [] = []"
  by (simp add: operations_def)

lemma find_append:
  "List.find P (xs @ ys) = (case List.find P xs of Some x \<Rightarrow> Some x | None \<Rightarrow> List.find P ys)"
  by (induction xs) auto

lemma find_operation_flat:
  "find_operation inp ps =
     map_option (\<lambda>(p, m, op). (op, p, m))
       (List.find (\<lambda>(p, m, op). lookup_matches inp p m op) (operations ps))"
proof (induction ps)
  case Nil
  show ?case by (simp add: operations_Nil)
next
  case (Cons entry ps)
  obtain path pathItem where e: "entry = (path, pathItem)" by (cases entry)
  show ?case
    using Cons.IH
    by (cases pathItem)
       (auto simp: e operations_Cons find_append find_inner_flat split: option.splits)
qed

lemma list_entries_append: "list_entries inp (xs @ ys) = list_entries inp xs @ list_entries inp ys"
  by (simp add: list_entries_def)

lemma list_entries_Nil: "list_entries inp [] = []"
  by (simp add: list_entries_def)

lemma take_exact: "length xs = n \<Longrightarrow> take n (xs @ ys) = xs"
  by simp

lemma take_reached: "n \<le> length xs \<Longrightarrow> take n (xs @ ys) = take n xs"
  by simp

lemma list_inner_flat:
  "length endpoints < nat (li_limit inp) \<Longrightarrow>
   list_inner inp path item endpoints =
     take (nat (li_limit inp)) (endpoints @ list_entries inp (item_operations path item))"
proof (induction item arbitrary: endpoints)
  case Nil
  then show ?case by (simp add: item_operations_def list_entries_def)
next
  case (Cons entry item)
  obtain verb operation where e: "entry = (verb, operation)" by (cases entry)
  let ?L = "nat (li_limit inp)"
  let ?rest = "list_entries inp (item_operations path item)"
  show ?case
  proof (cases "operation = None \<or> verb = ''$ref'' \<or> list_filtered_out inp verb (the operation)")
    case True
    then have "list_entries inp (item_operations path (entry # item)) = ?rest"
      by (auto simp: e item_operations_Cons list_entries_def split: option.splits)
    moreover from True have "list_inner inp path (entry # item) endpoints = list_inner inp path item endpoints"
      by (auto simp: e split: option.splits)
    ultimately show ?thesis
      using Cons.IH [OF Cons.prems] by simp
  next
    case False
    then obtain op where op: "operation = Some op" "verb \<noteq> ''$ref''" "\<not> list_filtered_out inp verb op"
      by auto
    let ?acc = "endpoints @ [list_entry path verb op]"
    have ents: "endpoints @ list_entries inp (item_operations path (entry # item)) = ?acc @ ?rest"
      by (simp add: e op item_operations_Cons list_entries_def)
    show ?thesis
    proof (cases "?L \<le> length ?acc")
      case True
      with Cons.prems have "length ?acc = ?L" by simp
      then have "take ?L (?acc @ ?rest) = ?acc"
        by (rule take_exact)
      moreover from True have "list_inner inp path (entry # item) endpoints = ?acc"
        by (simp add: e op limit_le_length Let_def)
      ultimately show ?thesis
        by (simp only: ents)
    next
      case False
      then have "length ?acc < ?L" by simp
      from Cons.IH [OF this]
      have "list_inner inp path item ?acc = take ?L (?acc @ ?rest)" .
      moreover from False have "list_inner inp path (entry # item) endpoints = list_inner inp path item ?acc"
        by (simp add: e op limit_le_length Let_def)
      ultimately show ?thesis
        by (simp only: ents)
    qed
  qed
qed

lemma list_outer_flat:
  "length endpoints < nat (li_limit inp) \<Longrightarrow>
   list_outer inp ps endpoints =
     take (nat (li_limit inp)) (endpoints @ list_entries inp (operations ps))"
proof (induction ps arbitrary: endpoints)
  case Nil
  then show ?case by (simp add: operations_Nil list_entries_def)
next
  case (Cons entry ps)
  obtain path pathItem where e: "entry = (path, pathItem)" by (cases entry)
  show ?case
  proof (cases pathItem)
    case None
    with Cons show ?thesis by (simp add: e operations_Cons)
  next
    case (Some item)
    let ?L = "nat (li_limit inp)"
    let ?E = "endpoints @ list_entries inp (item_operations path item)"
    let ?rest = "list_entries inp (operations ps)"
    have inner: "list_inner inp path item endpoints = take ?L ?E"
      using Cons.prems by (rule list_inner_flat)
    have ents: "endpoints @ list_entries inp (operations (entry # ps)) = ?E @ ?rest"
      by (simp add: e Some operations_Cons list_entries_append)
    show ?thesis
    proof (cases "?L \<le> length ?E")
      case True
      then have "take ?L (?E @ ?rest) = take ?L ?E"
        by (rule take_reached)
      moreover from True have "?L \<le> length (take ?L ?E)" by simp
      then have "list_outer inp (entry # ps) endpoints = take ?L ?E"
        by (simp add: e Some inner limit_le_length Let_def del: length_take)
      ultimately show ?thesis
        by (simp only: ents)
    next
      case False
      then have short: "length ?E < ?L" by simp
      then have t: "take ?L ?E = ?E" by simp
      from Cons.IH [OF short] have "list_outer inp ps ?E = take ?L (?E @ ?rest)" .
      moreover from False have "list_outer inp (entry # ps) endpoints = list_outer inp ps ?E"
        by (simp add: e Some inner t limit_le_length Let_def)
      ultimately show ?thesis
        by (simp only: ents)
    qed
  qed
qed

lemma search_matches_append:
  "search_matches query (xs @ ys) = search_matches query xs @ search_matches query ys"
  by (simp add: search_matches_def)

lemma search_inner_flat:
  "length results < nat limit \<Longrightarrow>
   search_inner query limit path item results =
     take (nat limit) (results @ search_matches query (item_operations path item))"
proof (induction item arbitrary: results)
  case Nil
  then show ?case by (simp add: item_operations_def search_matches_def)
next
  case (Cons entry item)
  obtain verb operation where e: "entry = (verb, operation)" by (cases entry)
  let ?L = "nat limit"
  let ?rest = "search_matches query (item_operations path item)"
  show ?case
  proof (cases "operation = None \<or> verb = ''$ref''")
    case True
    then have "search_matches query (item_operations path (entry # item)) = ?rest"
      by (auto simp: e item_operations_Cons search_matches_def split: option.splits)
    moreover from True have "search_inner query limit path (entry # item) results =
        search_inner query limit path item results"
      by (auto simp: e split: option.splits)
    ultimately show ?thesis
      using Cons.IH [OF Cons.prems] by simp
  next
    case False
    then obtain op where op: "operation = Some op" "verb \<noteq> ''$ref''"
      by auto
    let ?acc = "if str_includes (endpoint_searchText path verb op) query
                then results @ [search_entry path verb op] else results"
    have ents: "results @ search_matches query (item_operations path (entry # item)) = ?acc @ ?rest"
      by (simp add: e op item_operations_Cons search_matches_def)
    have len: "length ?acc \<le> ?L"
      using Cons.prems by simp
    show ?thesis
    proof (cases "?L \<le> length ?acc")
      case True
      with len have "length ?acc = ?L" by simp
      then have "take ?L (?acc @ ?rest) = ?acc"
        by (rule take_exact)
      moreover from True have "search_inner query limit path (entry # item) results = ?acc"
        by (simp add: e op limit_le_length Let_def)
      ultimately show ?thesis
        by (simp only: ents)
    next
      case False
      then have "length ?acc < ?L" by simp
      from Cons.IH [OF this]
      have "search_inner query limit path item ?acc = take ?L (?acc @ ?rest)" .
      moreover from False have "search_inner query limit path (entry # item) results =
          search_inner query limit path item ?acc"
        by (simp add: e op limit_le_length Let_def)
      ultimately show ?thesis
        by (simp only: ents)
    qed
  qed
qed

lemma search_outer_flat:
  "length results < nat limit \<Longrightarrow>
   search_outer query limit ps results =
     take (nat limit) (results @ search_matches query (operations ps))"
proof (induction ps arbitrary: results)
  case Nil
  then show ?case by (simp add: operations_Nil search_matches_def)
next
  case (Cons entry ps)
  obtain path pathItem where e: "entry = (path, pathItem)" by (cases entry)
  show ?case
  proof (cases pathItem)
    case None
    with Cons show ?thesis by (simp add: e operations_Cons)
  next
    case (Some item)
    let ?L = "nat limit"
    let ?E = "results @ search_matches query (item_operations path item)"
    let ?rest = "search_matches query (operations ps)"
    have inner: "search_inner query limit path item results = take ?L ?E"
      using Cons.prems by (rule search_inner_flat)
    have ents: "results @ search_matches query (operations (entry # ps)) = ?E @ ?rest"
      by (simp add: e Some operations_Cons search_matches_append)
    show ?thesis
    proof (cases "?L \<le> length ?E")
      case True
      then have "take ?L (?E @ ?rest) = take ?L ?E"
        by (rule take_reached)
      moreover from True have "?L \<le> length (take ?L ?E)" by simp
      then have "search_outer query limit (entry # ps) results = take ?L ?E"
        by (simp add: e Some inner limit_le_length Let_def del: length_take)
      ultimately show ?thesis
        by (simp only: ents)
    next
      case False
      then have short: "length ?E < ?L" by simp
      then have t: "take ?L ?E = ?E" by simp
      from Cons.IH [OF short] have "search_outer query limit ps ?E = take ?L (?E @ ?rest)" .
      moreover from False have "search_outer query limit (entry # ps) results =
          search_outer query limit ps ?E"
        by (simp add: e Some inner t limit_le_length Let_def)
      ultimately show ?thesis
        by (simp only: ents)
    qed
  qed
qed

text \<open>The Postman loop tests the limit only after a match.\<close>

lemma search_loop_flat:
  "search_loop query limit reqs results =
     results @ take (max 1 (nat limit - length results)) (request_hits query reqs)"
proof (induction reqs arbitrary: results)
  case Nil
  show ?case by (simp add: request_hits_def)
next
  case (Cons req reqs)
  show ?case
  proof (cases "str_includes (request_searchText req) query")
    case False
    then show ?thesis
      using Cons.IH [of results] by (simp add: request_hits_def)
  next
    case True
    let ?acc = "results @ [search_hit query req]"
    have hits: "request_hits query (req # reqs) = search_hit query req # request_hits query reqs"
      using True by (simp add: request_hits_def)
    show ?thesis
    proof (cases "nat limit \<le> length ?acc")
      case True
      then have "max 1 (nat limit - length results) = 1" by simp
      moreover from True \<open>str_includes (request_searchText req) query\<close>
      have "search_loop query limit (req # reqs) results = ?acc"
        by (simp add: limit_le_length Let_def)
      ultimately show ?thesis
        by (simp add: hits)
    next
      case False
      then have m: "max 1 (nat limit - length results) = Suc (nat limit - length ?acc)"
        and m': "max 1 (nat limit - length ?acc) = nat limit - length ?acc"
        by simp_all
      from False \<open>str_includes (request_searchText req) query\<close>
      have "search_loop query limit (req # reqs) results = search_loop query limit reqs ?acc"
        by (simp add: limit_le_length Let_def)
      then show ?thesis
        using Cons.IH [of ?acc] by (simp only: hits m m') simp
    qed
  qed
qed


lemma find_in_set:
  "x \<in> set xs \<Longrightarrow> P x \<Longrightarrow> \<exists>y. List.find P xs = Some y \<and> P y \<and> y \<in> set xs"
  by (induction xs) auto

lemma list_endpoints_all:
  assumes "int (length (operations (paths srv))) \<le> li_limit inp"
  shows "list_endpoints srv inp = list_entries inp (operations (paths srv))"
proof (cases "operations (paths srv) = []")
  case True
  have "list_outer inp ps acc = acc" if "operations ps = []" for ps acc
    using that
  proof (induction ps arbitrary: acc)
    case Nil
    show ?case by simp
  next
    case (Cons entry ps)
    obtain path pathItem where e: "entry = (path, pathItem)" by (cases entry)
    from Cons.prems have r: "operations ps = []"
      and i: "\<And>item. pathItem = Some item \<Longrightarrow> item_operations path item = []"
      by (auto simp: e operations_Cons)
    have inner: "list_inner inp path item acc' = acc'" if "item_operations path item = []" for item acc'
      using that
      by (induction item arbitrary: acc')
         (auto simp: item_operations_Cons split: option.splits if_splits)
    show ?case
      using Cons.IH [OF r] i inner by (cases pathItem) (auto simp: e Let_def)
  qed
  with True show ?thesis
    by (simp add: list_endpoints_def list_entries_def)
next
  case False
  then have "1 \<le> int (length (operations (paths srv)))"
    by (cases "operations (paths srv)") auto
  with assms have "1 \<le> li_limit inp" by linarith
  then have pos: "length ([] :: endpoint_entry list) < nat (li_limit inp)" by simp
  from assms have le: "length (operations (paths srv)) \<le> nat (li_limit inp)" by linarith
  have "length (list_entries inp (operations (paths srv))) \<le> length (operations (paths srv))"
    by (simp add: list_entries_def)
  with le show ?thesis
    unfolding list_endpoints_def list_outer_flat [OF pos] by simp
qed

section \<open>Strings\<close>

lemma str_includes_sublist: "str_includes t p = sublist p t"
  by (induction t) (auto simp: sublist_Cons_right)

lemma str_includes_iff: "str_includes t p \<longleftrightarrow> (\<exists>pre post. t = pre @ p @ post)"
  by (simp add: str_includes_sublist sublist_def)

lemma split_not_Nil: "split sep s \<noteq> []"
  by (induction s) auto

lemma split_no_sep: "sep \<notin> set w \<Longrightarrow> split sep w = [w]"
  by (induction w) auto

lemma split_append_sep:
  "sep \<notin> set w \<Longrightarrow> split sep (w @ sep # rest) = w # split sep rest"
  by (induction w) auto

lemma split_join:
  "ws \<noteq> [] \<Longrightarrow> \<forall>w \<in> set ws. sep \<notin> set w \<Longrightarrow> split sep (join [sep] ws) = ws"
proof (induction ws)
  case Nil
  then show ?case by simp
next
  case (Cons w ws)
  show ?case
  proof (cases ws)
    case Nil
    with Cons.prems show ?thesis by (simp add: split_no_sep)
  next
    case (Cons y ys)
    with Cons.IH Cons.prems show ?thesis by (simp add: split_append_sep)
  qed
qed


text \<open>Where a piece of \<open>split\<close> stands in the text.\<close>

lemma split_hd_position:
  "s = hd (split sep s) \<or> (\<exists>post. s = hd (split sep s) @ sep # post)"
  by (induction s) auto

lemma split_tl_position:
  "w \<in> set (tl (split sep s)) \<Longrightarrow>
   (\<exists>pre. s = pre @ sep # w) \<or> (\<exists>pre post. s = pre @ sep # w @ sep # post)"
proof (induction s)
  case Nil
  then show ?case by simp
next
  case (Cons c s)
  show ?case
  proof (cases "c = sep")
    case True
    with Cons.prems have "w \<in> set (split sep s)" by simp
    then have "w = hd (split sep s) \<or> w \<in> set (tl (split sep s))"
      using split_not_Nil [of sep s] by (cases "split sep s") auto
    then show ?thesis
    proof
      assume w: "w = hd (split sep s)"
      from split_hd_position [of s sep] show ?thesis
      proof
        assume "s = hd (split sep s)"
        with w True have "c # s = [] @ sep # w" by simp
        then show ?thesis by blast
      next
        assume "\<exists>post. s = hd (split sep s) @ sep # post"
        then obtain post where "s = w @ sep # post" using w by auto
        with True have "c # s = [] @ sep # w @ sep # post" by simp
        then show ?thesis by blast
      qed
    next
      assume "w \<in> set (tl (split sep s))"
      from Cons.IH [OF this] show ?thesis
      proof
        assume "\<exists>pre. s = pre @ sep # w"
        then obtain pre where "c # s = (c # pre) @ sep # w" by auto
        then show ?thesis by blast
      next
        assume "\<exists>pre post. s = pre @ sep # w @ sep # post"
        then obtain pre post where "c # s = (c # pre) @ sep # w @ sep # post" by auto
        then show ?thesis by blast
      qed
    qed
  next
    case False
    with Cons.prems have "w \<in> set (tl (split sep s))" by simp
    from Cons.IH [OF this] show ?thesis
    proof
      assume "\<exists>pre. s = pre @ sep # w"
      then obtain pre where "c # s = (c # pre) @ sep # w" by auto
      then show ?thesis by blast
    next
      assume "\<exists>pre post. s = pre @ sep # w @ sep # post"
      then obtain pre post where "c # s = (c # pre) @ sep # w @ sep # post" by auto
      then show ?thesis by blast
    qed
  qed
qed

lemma split_position:
  assumes "w \<in> set (split sep s)"
  shows "s = w \<or> (\<exists>post. s = w @ sep # post) \<or> (\<exists>pre. s = pre @ sep # w) \<or>
         (\<exists>pre post. s = pre @ sep # w @ sep # post)"
proof -
  from assms have "w = hd (split sep s) \<or> w \<in> set (tl (split sep s))"
    using split_not_Nil [of sep s] by (cases "split sep s") auto
  then show ?thesis
    using split_hd_position [of s sep] split_tl_position [of w sep s] by auto
qed

lemma fold_gain:
  "fold (\<lambda>word score.
        if str_includes text word
        then (if str_includes text ('' '' @ word @ '' '') \<or> startsWith text word \<or>
                 endsWith text word
              then score + 1 + 1 / 2 else score + 1)
        else score) ws acc = acc + sum_list (map (word_gain text) ws)"
  by (induction ws arbitrary: acc) (auto simp: word_gain_def)

lemma calculateRelevance_sum:
  "calculateRelevance query text = sum_list (map (word_gain text) (split CHR '' '' query))"
  by (simp add: calculateRelevance_def fold_gain)

lemma calculateRelevance_word:
  "CHR '' '' \<notin> set w \<Longrightarrow> calculateRelevance w text = word_gain text w"
  by (simp add: calculateRelevance_sum split_no_sep)

lemma calculateRelevance_words:
  assumes "ws \<noteq> []" and "\<forall>w \<in> set ws. CHR '' '' \<notin> set w"
  shows "calculateRelevance (join '' '' ws) text = (\<Sum>w\<leftarrow>ws. calculateRelevance w text)"
proof -
  have "split CHR '' '' (join '' '' ws) = ws"
    using split_join [OF assms] by simp
  then have a: "calculateRelevance (join '' '' ws) text = sum_list (map (word_gain text) ws)"
    by (simp add: calculateRelevance_sum)
  have b: "map (\<lambda>w. calculateRelevance w text) ws = map (word_gain text) ws"
    using assms(2) by (intro map_cong refl calculateRelevance_word) simp
  show ?thesis
    by (simp only: a b)
qed

lemma whole_word_gain:
  assumes "w \<in> set (split CHR '' '' text)"
  shows "word_gain text w = 3 / 2"
proof -
  from split_position [OF assms]
  consider "text = w" | post where "text = w @ CHR '' '' # post"
    | pre where "text = pre @ CHR '' '' # w"
    | pre post where "text = pre @ CHR '' '' # w @ CHR '' '' # post"
    by blast
  then show ?thesis
  proof cases
    case 1
    then have "str_includes text w" "startsWith text w"
      by (auto simp: str_includes_iff startsWith_def intro: exI [of _ "[]"])
    then show ?thesis by (simp add: word_gain_def)
  next
    case 2
    then have "str_includes text w" "startsWith text w"
      by (auto simp: str_includes_iff startsWith_def intro: exI [of _ "[]"])
    then show ?thesis by (simp add: word_gain_def)
  next
    case 3
    then have "text = (pre @ '' '') @ w @ []" by simp
    then have "str_includes text w"
      unfolding str_includes_iff by blast
    moreover from 3 have "endsWith text w"
      by (simp add: endsWith_def suffix_def)
    ultimately show ?thesis by (simp add: word_gain_def)
  next
    case 4
    then have "text = (pre @ '' '') @ w @ ('' '' @ post)" "text = pre @ ('' '' @ w @ '' '') @ post"
      by simp_all
    then have "str_includes text w" "str_includes text ('' '' @ w @ '' '')"
      unfolding str_includes_iff by blast+
    then show ?thesis by (simp add: word_gain_def)
  qed
qed

section \<open>Objects built key by key\<close>

lemma map_of_fold_update:
  "distinct (map fst ps) \<Longrightarrow>
   map_of (fold (\<lambda>(key, value) acc. if P key value then AList.update key value acc else acc)
             ps acc) k =
     (case map_of ps k of
        Some v \<Rightarrow> if P k v then Some v else map_of acc k
      | None \<Rightarrow> map_of acc k)"
proof (induction ps arbitrary: acc)
  case Nil
  show ?case by simp
next
  case (Cons p ps)
  obtain a b where p: "p = (a, b)" by (cases p)
  from Cons.prems have d: "distinct (map fst ps)" and a: "a \<notin> fst ` set ps"
    by (simp_all add: p)
  from a have n: "map_of ps a = None"
    by (simp add: map_of_eq_None_iff)
  show ?case
    using Cons.IH [OF d] n
    by (auto simp: p update_conv' split: option.splits)
qed

section \<open>Variable tokens\<close>




















section \<open>Path templates\<close>





























section \<open>Claims\<close>

text \<open>
  C1. For every OpenAPI operation that has no explicit operationId, the endpoint's id,
  as \<open>list_endpoints\<close>, \<open>get_endpoint_details\<close> and \<open>search_endpoints\<close> report it and as
  lookups match it, is the operation's HTTP-verb key, a hyphen and the path template,
  byte for byte. The operation is listed when it passes the filters and found by a
  search whose text it contains (with a limit that does not cut the scan short), and a
  lookup by the derived id finds an endpoint with exactly that id.
\<close>

theorem C1_default_operation_id:
  assumes "(path, method, op) \<in> set (operations (paths srv))"
    and "operationId op = None"
  shows "r_operationId (list_entry path method op) = method @ ''-'' @ path \<and>
         r_operationId (search_entry path method op) = method @ ''-'' @ path \<and>
         (\<not> list_filtered_out inp method op \<and>
          int (length (operations (paths srv))) \<le> li_limit inp \<longrightarrow>
            list_entry path method op \<in> set (list_endpoints srv inp)) \<and>
         (str_includes (endpoint_searchText path method op) (toLowerCase query) \<and>
          int (length (operations (paths srv))) \<le> limit \<longrightarrow>
            search_entry path method op \<in> set (search_endpoints srv query limit)) \<and>
         (\<exists>entry. get_endpoint_details srv
              \<lparr>lk_operationId = Some (method @ ''-'' @ path), lk_path = None,
                 lk_method = None\<rparr> = (Json entry, srv) \<and>
            r_operationId entry = method @ ''-'' @ path)"
proof -
  have id: "endpoint_id method path op = method @ ''-'' @ path"
    using assms(2) by (simp add: endpoint_id_def or_else_def truthy_def)
  have ne: "1 \<le> int (length (operations (paths srv)))"
    using assms(1) by (cases "operations (paths srv)") auto
  have a: "r_operationId (list_entry path method op) = method @ ''-'' @ path"
    by (simp add: list_entry_def id)
  have b: "r_operationId (search_entry path method op) = method @ ''-'' @ path"
    by (simp add: search_entry_def id)
  have c: "list_entry path method op \<in> set (list_endpoints srv inp)"
    if "\<not> list_filtered_out inp method op" "int (length (operations (paths srv))) \<le> li_limit inp"
    using that assms(1) by (force simp: list_endpoints_all list_entries_def)
  have d: "search_entry path method op \<in> set (search_endpoints srv query limit)"
    if m: "str_includes (endpoint_searchText path method op) (toLowerCase query)"
      and l: "int (length (operations (paths srv))) \<le> limit"
  proof -
    from l ne have "1 \<le> limit" by linarith
    then have pos: "length ([] :: search_result list) < nat limit" by simp
    from l have le: "length (operations (paths srv)) \<le> nat limit" by linarith
    have "length (search_matches (toLowerCase query) (operations (paths srv)))
            \<le> length (operations (paths srv))"
      by (simp add: search_matches_def)
    with le have "search_endpoints srv query limit =
        search_matches (toLowerCase query) (operations (paths srv))"
      unfolding search_endpoints_def search_outer_flat [OF pos] by simp
    with m assms(1) show ?thesis
      by (force simp: search_matches_def)
  qed
  let ?inp = "\<lparr>lk_operationId = Some (method @ ''-'' @ path), lk_path = None, lk_method = None\<rparr>"
  have "lookup_matches ?inp path method op"
    by (simp add: lookup_matches_def id)
  with assms(1) obtain y where y: "List.find (\<lambda>(p, m, op). lookup_matches ?inp p m op)
        (operations (paths srv)) = Some y" "(\<lambda>(p, m, op). lookup_matches ?inp p m op) y"
    using find_in_set [of "(path, method, op)" "operations (paths srv)"
        "\<lambda>(p, m, op). lookup_matches ?inp p m op"] by auto
  obtain p' m' op' where y': "y = (p', m', op')" by (cases y)
  from y(2) have "endpoint_id m' p' op' = method @ ''-'' @ path"
    by (simp add: y' lookup_matches_def)
  moreover have "find_operation ?inp (paths srv) = Some (op', p', m')"
    unfolding find_operation_flat y(1) by (simp add: y')
  ultimately have e: "\<exists>entry. get_endpoint_details srv ?inp = (Json entry, srv) \<and>
      r_operationId entry = method @ ''-'' @ path"
    by (simp add: get_endpoint_details_def list_entry_def)
  from a b c d e show ?thesis by blast
qed

theorem C1_default_operation_id_witness:
  "r_operationId (list_entry ''/pets'' ''get'' list_pets) = ''get-/pets'' \<and>
   r_operationId (search_entry ''/pets'' ''get'' list_pets) = ''get-/pets'' \<and>
   list_entry ''/pets'' ''get'' list_pets
     \<in> set (list_endpoints example_api \<lparr>li_method = None, li_tag = None, li_limit = 50\<rparr>) \<and>
   search_entry ''/pets'' ''get'' list_pets \<in> set (search_endpoints example_api ''pets'' 20) \<and>
   (\<exists>entry. get_endpoint_details example_api
        \<lparr>lk_operationId = Some ''get-/pets'', lk_path = None, lk_method = None\<rparr> =
        (Json entry, example_api) \<and> r_operationId entry = ''get-/pets'')"
proof -
  let ?inp = "\<lparr>li_method = None, li_tag = None, li_limit = 50\<rparr>"
  have h1: "(''/pets'', ''get'', list_pets) \<in> set (operations (paths example_api))"
    by code_simp
  have h2: "operationId list_pets = None"
    by (simp add: list_pets_def)
  have h3: "\<not> list_filtered_out ?inp ''get'' list_pets"
    by code_simp
  have h4: "int (length (operations (paths example_api))) \<le> li_limit ?inp"
    by code_simp
  have h5: "str_includes (endpoint_searchText ''/pets'' ''get'' list_pets) (toLowerCase ''pets'')"
    by code_simp
  have h6: "int (length (operations (paths example_api))) \<le> 20"
    by code_simp
  from C1_default_operation_id [OF h1 h2, of ?inp "''pets''" 20] h3 h4 h5 h6
  show ?thesis by simp
qed

text \<open>
  C2, as amended. For every search query the relevance score of a text adds up over
  the words of the query, the pieces between its single spaces, each occurrence of a
  repeated word counting again: a word that is not found in the text adds nothing, a
  word that is found adds 1 or 1.5, and it adds 1.5 whenever it is a whole word of the
  text (a piece between spaces, or at the start or the end of the text). The results
  are in the order of falling relevance, and results of equal relevance keep the order
  in which they were met (the sort is stable). For the query \<open>user\<close> the text
  \<open>get user\<close> scores 1.5, \<open>list users and roles\<close> scores 1 and \<open>update profile\<close>
  scores 0.
\<close>

theorem C2_relevance_ranking:
  "(ws \<noteq> [] \<and> (\<forall>w \<in> set ws. CHR '' '' \<notin> set w) \<longrightarrow>
      calculateRelevance (join '' '' ws) blob = (\<Sum>w\<leftarrow>ws. calculateRelevance w blob)) \<and>
   (CHR '' '' \<notin> set word \<longrightarrow>
      (\<not> str_includes blob word \<longrightarrow> calculateRelevance word blob = 0) \<and>
      (str_includes blob word \<longrightarrow>
         calculateRelevance word blob = 1 \<or> calculateRelevance word blob = 3 / 2) \<and>
      (word \<in> set (split CHR '' '' blob) \<longrightarrow> calculateRelevance word blob = 3 / 2)) \<and>
   sorted_wrt (\<lambda>a b. relevance b \<le> relevance a) (ranked_requests srv query limit) \<and>
   (\<forall>k. filter (\<lambda>r. relevance r = k) (ranked_requests srv query limit) =
        filter (\<lambda>r. relevance r = k) (search_loop (toLowerCase query) limit (requests srv) [])) \<and>
   calculateRelevance ''user'' ''get user'' = 3 / 2 \<and>
   calculateRelevance ''user'' ''list users and roles'' = 1 \<and>
   calculateRelevance ''user'' ''update profile'' = 0"
proof -
  have a: "calculateRelevance (join '' '' ws) blob = (\<Sum>w\<leftarrow>ws. calculateRelevance w blob)"
    if "ws \<noteq> []" "\<forall>w \<in> set ws. CHR '' '' \<notin> set w"
    using that by (rule calculateRelevance_words)
  have b: "(\<not> str_includes blob word \<longrightarrow> calculateRelevance word blob = 0) \<and>
      (str_includes blob word \<longrightarrow>
         calculateRelevance word blob = 1 \<or> calculateRelevance word blob = 3 / 2) \<and>
      (word \<in> set (split CHR '' '' blob) \<longrightarrow> calculateRelevance word blob = 3 / 2)"
    if "CHR '' '' \<notin> set word"
    using that whole_word_gain [of word blob]
    by (auto simp: calculateRelevance_word word_gain_def)
  let ?found = "search_loop (toLowerCase query) limit (requests srv) []"
  have "sorted (map (\<lambda>r. - relevance r) (sort_key (\<lambda>r. - relevance r) ?found))"
    by (rule sorted_sort_key)
  then have c: "sorted_wrt (\<lambda>a b. relevance b \<le> relevance a) (ranked_requests srv query limit)"
    by (simp add: ranked_requests_def sort_by_relevance_def sorted_map)
  have d: "filter (\<lambda>r. relevance r = k) (ranked_requests srv query limit) =
        filter (\<lambda>r. relevance r = k) ?found" for k
    using sort_key_stable [of "\<lambda>r. - relevance r" "- k" ?found]
    by (simp add: ranked_requests_def sort_by_relevance_def)
  have e: "calculateRelevance ''user'' ''get user'' = 3 / 2"
    by code_simp
  have f: "calculateRelevance ''user'' ''list users and roles'' = 1"
    by code_simp
  have g: "calculateRelevance ''user'' ''update profile'' = 0"
    by code_simp
  from a b c d e f g show ?thesis by blast
qed

theorem C2_relevance_ranking_witness:
  "calculateRelevance ''user user'' ''get user'' = 3 \<and>
   sorted_wrt (\<lambda>a b. relevance b \<le> relevance a) (ranked_requests example_collection ''user'' 20) \<and>
   map q_name (ranked_requests example_collection ''user'' 20) =
     [''get user'', ''list users and roles'']"
proof -
  have h1: "[''user'', ''user''] \<noteq> [] \<and> (\<forall>w \<in> set [''user'', ''user'']. CHR '' '' \<notin> set w)"
    by simp
  have h2: "CHR '' '' \<notin> set ''user''"
    by simp
  have h3: "''user'' \<in> set (split CHR '' '' ''get user'')"
    by simp
  have j: "join '' '' [''user'', ''user''] = ''user user''"
    by simp
  have r: "map q_name (ranked_requests example_collection ''user'' 20) =
     [''get user'', ''list users and roles'']"
    by code_simp
  from C2_relevance_ranking [where ws = "[''user'', ''user'']" and blob = "''get user''"
      and word = "''user''" and srv = example_collection and query = "''user''" and limit = 20]
    h1 h2 h3 j r
  show ?thesis by simp
qed

theorem C2_repeated_query_word:
  "calculateRelevance ''user user'' ''get user'' \<noteq> documented_relevance ''user user'' ''get user''"
proof -
  have "calculateRelevance ''user user'' ''get user'' = 3"
    by code_simp
  moreover have "documented_relevance ''user user'' ''get user'' = 3 / 2"
    by code_simp
  ultimately show ?thesis by simp
qed

text \<open>
  C3, as amended. Both searches stop collecting during the scan. For every OpenAPI
  search with a limit of at least one, the result is the first \<open>limit\<close> matches in scan
  order, with no sort. For every Postman search, the collection stops as soon as the
  number of matches reaches the limit (one match is always taken), and only the
  matches collected so far are then sorted by falling relevance.
\<close>

theorem C3_truncation_order:
  "(1 \<le> limit \<longrightarrow>
      search_endpoints srv query limit =
        take (nat limit) (search_matches (toLowerCase query) (operations (paths srv)))) \<and>
   search_requests psrv query limit =
     map strip_relevance
       (sort_by_relevance
          (take (max 1 (nat limit)) (request_hits (toLowerCase query) (requests psrv))))"
proof -
  have "search_endpoints srv query limit =
        take (nat limit) (search_matches (toLowerCase query) (operations (paths srv)))"
    if "1 \<le> limit"
  proof -
    from that have "length ([] :: search_result list) < nat limit" by simp
    from search_outer_flat [OF this] show ?thesis
      by (simp add: search_endpoints_def)
  qed
  then show ?thesis
    by (simp add: search_requests_def ranked_requests_def search_loop_flat)
qed

theorem C3_truncation_order_witness:
  "map r_operationId (search_endpoints example_api ''PETS'' 1) = [''get-/pets''] \<and>
   map q_name (search_requests example_collection ''user'' 20) =
     [''get user'', ''list users and roles''] \<and>
   map q_name (search_requests example_collection ''user'' 1) = [''list users and roles'']"
proof -
  have a: "map r_operationId
      (take (nat 1) (search_matches (toLowerCase ''PETS'') (operations (paths example_api))))
      = [''get-/pets'']"
    by code_simp
  have b: "map q_name (map strip_relevance (sort_by_relevance (take (max 1 (nat 20))
      (request_hits (toLowerCase ''user'') (requests example_collection)))))
      = [''get user'', ''list users and roles'']"
    by code_simp
  have c: "map q_name (map strip_relevance (sort_by_relevance (take (max 1 (nat 1))
      (request_hits (toLowerCase ''user'') (requests example_collection)))))
      = [''list users and roles'']"
    by code_simp
  from C3_truncation_order [where limit = 1 and srv = example_api and query = "''PETS''"] a
    C3_truncation_order [where limit = 20 and psrv = example_collection and query = "''user''"] b
    C3_truncation_order [where limit = 1 and psrv = example_collection and query = "''user''"] c
  show ?thesis by simp
qed

theorem C3_postman_truncates_before_sorting:
  "search_requests example_collection ''user'' 1
     \<noteq> documented_search_requests example_collection ''user'' 1"
proof -
  have "map q_name (search_requests example_collection ''user'' 1) = [''list users and roles'']"
    by code_simp
  moreover have "map q_name (documented_search_requests example_collection ''user'' 1)
      = [''get user'']"
    by code_simp
  ultimately show ?thesis by auto
qed

text \<open>
  C4. For every call to the auth resolvers: an explicit per-call AuthConfig is used in
  preference to the loaded default; when neither is present both the header output and
  the query-parameter output are empty; each scheme maps to the documented output
  (basic: \<open>Authorization: Basic base64(username:password)\<close> only if both fields are
  present; bearer and oauth2: \<open>Authorization: Bearer token\<close> only if the token is
  present; apiKey in the header: one header \<open>apiKeyName: apiKey\<close> and no query
  parameter; apiKey in the query: no header and one query parameter
  \<open>apiKeyName=apiKey\<close>); a missing required field gives empty output. A field is
  present when it is a non-empty string (\<open>truthy\<close>).
\<close>

theorem C4_auth_resolution:
  "auth_outputs d (Some a) = auth_outputs None (Some a) \<and>
   auth_outputs (Some a) None = auth_outputs None (Some a) \<and>
   auth_outputs None None = ([], []) \<and>
   (auth_type a = AuthBasic \<longrightarrow>
      auth_outputs d (Some a) =
        (if truthy (username a) \<and> truthy (password a)
         then [(''Authorization'',
                ''Basic '' @ base64 (the (username a) @ '':'' @ the (password a)))]
         else [], [])) \<and>
   (auth_type a = AuthBearer \<or> auth_type a = AuthOAuth2 \<longrightarrow>
      auth_outputs d (Some a) =
        (if truthy (token a) then [(''Authorization'', ''Bearer '' @ the (token a))] else [],
         [])) \<and>
   (auth_type a = AuthApiKey \<and> truthy (apiKey a) \<and> truthy (apiKeyName a) \<and>
    apiKeyIn a = Some InHeader \<longrightarrow>
      auth_outputs d (Some a) = ([(the (apiKeyName a), the (apiKey a))], [])) \<and>
   (auth_type a = AuthApiKey \<and> truthy (apiKey a) \<and> truthy (apiKeyName a) \<and>
    apiKeyIn a = Some InQuery \<longrightarrow>
      auth_outputs d (Some a) = ([], [(the (apiKeyName a), the (apiKey a))])) \<and>
   (auth_type a = AuthApiKey \<and>
    (\<not> truthy (apiKey a) \<or> \<not> truthy (apiKeyName a) \<or> apiKeyIn a = None) \<longrightarrow>
      auth_outputs d (Some a) = ([], [])) \<and>
   (auth_type a = AuthNone \<longrightarrow> auth_outputs d (Some a) = ([], []))"
  by (auto simp: getAuthHeaders_def getAuthQueryParams_def)

theorem C4_auth_resolution_witness:
  "auth_outputs
     (Some \<lparr>auth_type = AuthBearer, username = None, password = None, token = Some ''t'',
            apiKey = None, apiKeyName = None, apiKeyIn = None\<rparr>)
     (Some \<lparr>auth_type = AuthApiKey, username = None, password = None, token = None,
            apiKey = Some ''k'', apiKeyName = Some ''X'', apiKeyIn = Some InHeader\<rparr>)
     = ([(''X'', ''k'')], []) \<and>
   auth_outputs None
     (Some \<lparr>auth_type = AuthApiKey, username = None, password = None, token = None,
            apiKey = Some ''k'', apiKeyName = Some ''X'', apiKeyIn = Some InQuery\<rparr>)
     = ([], [(''X'', ''k'')]) \<and>
   auth_outputs None
     (Some \<lparr>auth_type = AuthBasic, username = Some ''user'', password = Some ''pass'',
            token = None, apiKey = None, apiKeyName = None, apiKeyIn = None\<rparr>)
     = ([(''Authorization'', ''Basic dXNlcjpwYXNz'')], []) \<and>
   auth_outputs None
     (Some \<lparr>auth_type = AuthBasic, username = Some ''user'', password = Some [],
            token = None, apiKey = None, apiKeyName = None, apiKeyIn = None\<rparr>)
     = ([], [])"
proof -
  let ?hdr = "\<lparr>auth_type = AuthApiKey, username = None, password = None, token = None,
            apiKey = Some ''k'', apiKeyName = Some ''X'', apiKeyIn = Some InHeader\<rparr>"
  let ?qry = "\<lparr>auth_type = AuthApiKey, username = None, password = None, token = None,
            apiKey = Some ''k'', apiKeyName = Some ''X'', apiKeyIn = Some InQuery\<rparr>"
  let ?bas = "\<lparr>auth_type = AuthBasic, username = Some ''user'', password = Some ''pass'',
            token = None, apiKey = None, apiKeyName = None, apiKeyIn = None\<rparr>"
  let ?bad = "\<lparr>auth_type = AuthBasic, username = Some ''user'', password = Some [],
            token = None, apiKey = None, apiKeyName = None, apiKeyIn = None\<rparr>"
  have b64: "base64 ''user:pass'' = ''dXNlcjpwYXNz''"
    by code_simp
  show ?thesis
    using C4_auth_resolution [of _ ?hdr] C4_auth_resolution [of None ?qry]
      C4_auth_resolution [of None ?bas] C4_auth_resolution [of None ?bad] b64
    by (simp add: truthy_def)
qed

text \<open>
  C5. The claim: a dispatch to an OpenAPI endpoint whose declared security requirement
  list is empty injects no credentials, even when a default AuthConfig is configured.
  \<open>make_api_call\<close> of \<open>SimpleSwaggerMcpServer\<close> never reads the requirement list: for
  \<open>GET /pets\<close> of the example, whose list is empty, the request carries the default
  bearer token. \<open>getAuthHeaders\<close> of \<open>SwaggerMcpServer\<close> gives no header for it.
\<close>

theorem C5_credentials_despite_empty_security:
  "find_operation \<lparr>lk_operationId = Some ''get-/pets'', lk_path = None, lk_method = None\<rparr>
     (paths example_api) = Some (list_pets, ''/pets'', ''get'') \<and>
   security list_pets = Some [] \<and>
   rq_headers
     (api_request example_api (list_pets, ''/pets'', ''get'')
        \<lparr>ci_target = \<lparr>lk_operationId = Some ''get-/pets'', lk_path = None, lk_method = None\<rparr>,
           ci_parameters = None, ci_body = BodyUndefined, ci_auth = None\<rparr>)
     = [(''Authorization'', JStr ''Bearer t'')] \<and>
   SwaggerMcpServer_getAuthHeaders (defaultAuth example_api) None None (Some list_pets) = []"
  by code_simp







text \<open>
  C9. The claim: the ids of the normalized endpoints are pairwise distinct, and two
  Postman leaf items whose names normalize to the same slug in the same folder still
  receive distinct ids through a numeric suffix. \<open>parseAllRequests\<close> adds no suffix:
  the two requests of the folder \<open>Users\<close> both get the id \<open>usersget_user\<close>, and a lookup
  by that id only ever finds the first.
\<close>

theorem C9_duplicate_request_ids:
  "map q_id (parseAllRequests twin_items) = [''usersget_user'', ''usersget_user''] \<and>
   \<not> distinct (map q_id (parseAllRequests twin_items)) \<and>
   map_option q_url
     (find_request \<lparr>lk_requestId = Some ''usersget_user'', lk_name = None\<rparr>
        (parseAllRequests twin_items)) = Some ''{{baseUrl}}/users/:id''"
  by code_simp

text \<open>
  C10, as amended. For every Postman dispatch, a caller-supplied parameter (its value
  not \<open>undefined\<close>) is added to the query parameters exactly when the URL, inspected
  after the variable and path-parameter substitution, contains neither \<open>:name\<close> nor
  \<open>{{name}}\<close>; otherwise the query holds under that name what the authentication put
  there, if anything. So a parameter that was substituted into the URL is sent as a
  query parameter as well when no such token is left, as in the example, and is not
  sent when one is left: because the token stood in the URL twice, or because a longer
  token begins with it.
\<close>

theorem C10_query_parameters:
  assumes "distinct (map fst parameters)" and "(key, value) \<in> set parameters"
  shows "map_of (rq_params (request_config srv request parameters body auth)) key =
     (if value \<noteq> JUndefined \<and>
         \<not> str_includes (request_url srv request parameters) ('':'' @ key) \<and>
         \<not> str_includes (request_url srv request parameters) (''{{'' @ key @ ''}}'')
      then Some value
      else map_of (str_values (getAuthQueryParams (pm_defaultAuth srv) auth)) key)"
proof -
  from assms have "map_of parameters key = Some value"
    by simp
  then show ?thesis
    using map_of_fold_update [OF assms(1), of
        "\<lambda>key value. value \<noteq> JUndefined \<and>
           \<not> str_includes (request_url srv request parameters) ('':'' @ key) \<and>
           \<not> str_includes (request_url srv request parameters) (''{{'' @ key @ ''}}'')"
        "str_values (getAuthQueryParams (pm_defaultAuth srv) auth)" key]
    by (simp add: request_config_def request_queryParams_def Let_def)
qed

theorem C10_query_parameters_witness:
  "request_url example_collection user_request [(''id'', JStr ''7'')] = ''https://api.test/users/7'' \<and>
   map_of (rq_params (request_config example_collection user_request [(''id'', JStr ''7'')]
                        BodyUndefined None)) ''id'' = Some (JStr ''7'')"
proof -
  have d: "distinct (map fst [(''id'', JStr ''7'')])"
    by simp
  have m: "(''id'', JStr ''7'') \<in> set [(''id'', JStr ''7'')]"
    by simp
  have u: "request_url example_collection user_request [(''id'', JStr ''7'')] = ''https://api.test/users/7''"
    by code_simp
  have a: "\<not> str_includes ''https://api.test/users/7'' ('':'' @ ''id'')"
    by code_simp
  have b: "\<not> str_includes ''https://api.test/users/7'' (''{{'' @ ''id'' @ ''}}'')"
    by code_simp
  from C10_query_parameters [OF d m, of example_collection user_request BodyUndefined None] u a b
  show ?thesis by simp
qed

theorem C10_substituted_but_not_sent:
  "request_url example_collection org_request [(''org'', JStr ''acme'')] =
     ''https://api.test/orgs/acme/users/:orgUser'' \<and>
   rq_params (request_config example_collection org_request [(''org'', JStr ''acme'')]
                BodyUndefined None) = []"
  by code_simp

end
